theory Spec2Isabelle
  imports Main
begin

section \<open>Log messages and the transcript\<close>

text \<open>
  The dashboard component of \<^verbatim>\<open>src/app/page.tsx\<close> (the version with the bank,
  internal and DRE tabs) is embedded here. A log line is
  \<^verbatim>\<open>interface LogMessage { type: LogType; text: string }\<close>.
\<close>

datatype LogType = info | success | error | server

record LogMessage =
  type :: LogType
  "text" :: string

text \<open>
  \<^verbatim>\<open>addLogs(newLogs)\<close> passes an updater to \<^verbatim>\<open>setLogMessages\<close>; the updater is
  the function of \<^verbatim>\<open>currentLogs\<close> below. The set of existing texts is computed
  once, from the current transcript, before the batch is filtered.
\<close>

definition addLogs :: "LogMessage list \<Rightarrow> LogMessage list \<Rightarrow> LogMessage list" where
  "addLogs newLogs currentLogs =
     (let existingTexts = set (map text currentLogs);
          filteredNewLogs = filter (\<lambda>log. text log \<notin> existingTexts) newLogs
      in if length filteredNewLogs > 0 then currentLogs @ filteredNewLogs else currentLogs)"

section \<open>JavaScript helpers\<close>

text \<open>\<^verbatim>\<open>String.prototype.includes\<close>: the search string occurs at some position.\<close>

fun "includes" :: "string \<Rightarrow> string \<Rightarrow> bool" where
  "includes [] searchString = (searchString = [])"
| "includes (c # cs) searchString =
     (take (length searchString) (c # cs) = searchString \<or> includes cs searchString)"

text \<open>
  Truthiness of a \<^verbatim>\<open>string | null\<close> value: \<^verbatim>\<open>null\<close>, \<^verbatim>\<open>undefined\<close> (both
  \<open>None\<close>) and the empty string are falsy.
\<close>

definition truthy :: "string option \<Rightarrow> bool" where
  "truthy v = (case v of None \<Rightarrow> False | Some str \<Rightarrow> str \<noteq> [])"

section \<open>Component state\<close>

text \<open>
  The \<^verbatim>\<open>useState\<close> cells and the \<^verbatim>\<open>pollingIntervalRef\<close> of
  \<^verbatim>\<open>IngestionDashboard\<close>, together with what the browser holds for the component:
  the live \<^verbatim>\<open>setInterval\<close> timers (handle and the job id captured by the callback),
  the upload requests in flight (file name and endpoint) and the log requests in flight
  (job id). A \<^verbatim>\<open>File\<close> is represented by its name, the only part the code reads.
  Timer handles are positive, hence truthy.
\<close>

record Dashboard =
  bankFile :: "string option"
  internalFile :: "string option"
  isProcessing :: bool
  currentJobId :: "string option"
  logMessages :: "LogMessage list"
  pollingIntervalRef :: "nat option"
  intervals :: "(nat \<times> string) list"
  nextHandle :: nat
  uploads :: "(string \<times> string) list"
  polls :: "string list"

definition initial :: Dashboard where
  "initial = \<lparr>bankFile = None, internalFile = None, isProcessing = False,
     currentJobId = None,
     logMessages = [\<lparr>type = info, text = ''Waiting for file...''\<rparr>],
     pollingIntervalRef = None, intervals = [], nextHandle = 1, uploads = [], polls = []\<rparr>"

definition stopPolling :: "Dashboard \<Rightarrow> Dashboard" where
  "stopPolling s =
     (case pollingIntervalRef s of
        None \<Rightarrow> s
      | Some h \<Rightarrow> s\<lparr>intervals := filter (\<lambda>(h', j). h' \<noteq> h) (intervals s),
                    pollingIntervalRef := None\<rparr>)"

text \<open>
  The body of the polling \<^verbatim>\<open>useEffect\<close>: when a job id is set and the component is
  processing, a new interval is registered and its handle stored in the ref.
\<close>

definition pollingEffect :: "Dashboard \<Rightarrow> Dashboard" where
  "pollingEffect s =
     (case currentJobId s of
        None \<Rightarrow> s
      | Some j \<Rightarrow>
          if j \<noteq> [] \<and> isProcessing s
          then s\<lparr>pollingIntervalRef := Some (nextHandle s),
                 intervals := intervals s @ [(nextHandle s, j)],
                 nextHandle := Suc (nextHandle s)\<rparr>
          else s)"

text \<open>
  After a handler has run, React renders again; the effect has the dependency list
  \<^verbatim>\<open>[currentJobId, isProcessing]\<close>, so when one of the two changed its cleanup
  (\<^verbatim>\<open>stopPolling\<close>) runs, then its body.
\<close>

definition rerender :: "Dashboard \<Rightarrow> Dashboard \<Rightarrow> Dashboard" where
  "rerender prev cur =
     (if currentJobId cur = currentJobId prev \<and> isProcessing cur = isProcessing prev
      then cur
      else pollingEffect (stopPolling cur))"

section \<open>File selection and upload\<close>

definition onBankFileChange :: "string option \<Rightarrow> Dashboard \<Rightarrow> Dashboard" where
  "onBankFileChange selectedFile s =
     (case selectedFile of
        None \<Rightarrow> s
      | Some name \<Rightarrow>
          s\<lparr>bankFile := Some name,
            logMessages := [\<lparr>type = info, text = ''Bank file selected: '' @ name\<rparr>],
            currentJobId := None\<rparr>)"

definition onInternalFileChange :: "string option \<Rightarrow> Dashboard \<Rightarrow> Dashboard" where
  "onInternalFileChange selectedFile s =
     (case selectedFile of
        None \<Rightarrow> s
      | Some name \<Rightarrow>
          s\<lparr>internalFile := Some name,
            logMessages := [\<lparr>type = info, text = ''Internal file selected: '' @ name\<rparr>],
            currentJobId := None\<rparr>)"

text \<open>
  \<^verbatim>\<open>handleUpload(file, endpoint)\<close> up to its first \<^verbatim>\<open>await\<close>: the guard on the
  file, the state updates, and the POST that is left in flight.
\<close>

definition handleUpload :: "string option \<Rightarrow> string \<Rightarrow> Dashboard \<Rightarrow> Dashboard" where
  "handleUpload file endpoint s =
     (case file of
        None \<Rightarrow>
          s\<lparr>logMessages :=
              addLogs [\<lparr>type = error, text = ''No file selected to upload.''\<rparr>] (logMessages s)\<rparr>
      | Some name \<Rightarrow>
          s\<lparr>isProcessing := True,
            currentJobId := None,
            logMessages :=
              addLogs [\<lparr>type = info,
                        text = ''Uploading '' @ name @ '' to '' @ endpoint @ ''...''\<rparr>] [],
            uploads := uploads s @ [(name, endpoint)]\<rparr>)"

text \<open>
  The JSON body of the upload response, as far as the handler reads it:
  \<^verbatim>\<open>detail\<close> (a string, or an object that may have a \<^verbatim>\<open>message\<close>) and
  \<^verbatim>\<open>job_id\<close>. A request either rejects with an error message (transport failure,
  or \<^verbatim>\<open>response.json()\<close> failing on the body), or yields \<^verbatim>\<open>response.ok\<close> and a
  body. The body may be the JSON value \<^verbatim>\<open>null\<close>: reading a field of it throws a
  \<^verbatim>\<open>TypeError\<close>, whose message (the engine's wording) comes with the outcome.
\<close>

datatype detail = DetailString string | DetailObject "string option"

record upload_body =
  detail :: "detail option"
  job_id :: "string option"

datatype upload_outcome =
    UploadRejected string
  | UploadResponse bool upload_body
  | UploadResponseNull bool string

text \<open>
  The message of \<^verbatim>\<open>new Error(data.detail?.message || data.detail || 'Upload failed')\<close>.
  An object without a usable message is itself truthy and is converted to a string by
  the \<^verbatim>\<open>Error\<close> constructor.
\<close>

definition uploadErrorMessage :: "upload_body \<Rightarrow> string" where
  "uploadErrorMessage data =
     (case detail data of
        None \<Rightarrow> ''Upload failed''
      | Some (DetailString d) \<Rightarrow> if d \<noteq> [] then d else ''Upload failed''
      | Some (DetailObject m) \<Rightarrow>
          (case m of
             None \<Rightarrow> ''[object Object]''
           | Some t \<Rightarrow> if t \<noteq> [] then t else ''[object Object]''))"

text \<open>The \<^verbatim>\<open>catch\<close> block of \<^verbatim>\<open>handleUpload\<close>.\<close>

definition uploadFailed :: "string \<Rightarrow> Dashboard \<Rightarrow> Dashboard" where
  "uploadFailed errorMessage s =
     s\<lparr>logMessages :=
         addLogs [\<lparr>type = error, text = ''Upload failed: '' @ errorMessage\<rparr>] (logMessages s),
       isProcessing := False,
       bankFile := None,
       internalFile := None\<rparr>"

text \<open>
  \<^verbatim>\<open>handleUpload\<close> after the request has settled. With a \<^verbatim>\<open>null\<close> body and
  a response that is not ok, \<^verbatim>\<open>data.detail\<close> throws at once; with an ok response
  the success line is logged first and \<^verbatim>\<open>data.job_id\<close> throws then. Either way the
  \<^verbatim>\<open>catch\<close> block runs.
\<close>

definition uploadSettled :: "upload_outcome \<Rightarrow> Dashboard \<Rightarrow> Dashboard" where
  "uploadSettled outcome s =
     (case outcome of
        UploadRejected errorMessage \<Rightarrow> uploadFailed errorMessage s
      | UploadResponse ok data \<Rightarrow>
          if \<not> ok then uploadFailed (uploadErrorMessage data) s
          else s\<lparr>logMessages :=
                   addLogs [\<lparr>type = success, text = ''Upload complete. Processing...''\<rparr>]
                     (logMessages s),
                 currentJobId := job_id data\<rparr>
      | UploadResponseNull ok errorMessage \<Rightarrow>
          if \<not> ok then uploadFailed errorMessage s
          else uploadFailed errorMessage
                 (s\<lparr>logMessages :=
                      addLogs [\<lparr>type = success, text = ''Upload complete. Processing...''\<rparr>]
                        (logMessages s)\<rparr>))"

section \<open>Polling\<close>

text \<open>
  A log request either rejects with an error message, or yields \<^verbatim>\<open>response.ok\<close>,
  \<^verbatim>\<open>response.statusText\<close> and the \<^verbatim>\<open>logs\<close> field of the body (absent: \<open>None\<close>).
  Rejecting covers a transport failure, a body that is not JSON, and an ok response with
  the body \<^verbatim>\<open>null\<close>, where \<^verbatim>\<open>data.logs\<close> throws before anything else is done.
\<close>

datatype poll_outcome = PollRejected string | PollResponse bool string "LogMessage list option"

text \<open>The \<^verbatim>\<open>catch\<close> block of the interval callback.\<close>

definition pollFailed :: "string \<Rightarrow> Dashboard \<Rightarrow> Dashboard" where
  "pollFailed errorMessage s =
     (stopPolling
        (s\<lparr>logMessages :=
             addLogs [\<lparr>type = error, text = ''Failed to fetch logs: '' @ errorMessage\<rparr>]
               (logMessages s)\<rparr>))
       \<lparr>isProcessing := False\<rparr>"

text \<open>The interval callback after its \<^verbatim>\<open>fetch\<close> has settled.\<close>

definition pollSettled :: "poll_outcome \<Rightarrow> Dashboard \<Rightarrow> Dashboard" where
  "pollSettled outcome s =
     (case outcome of
        PollRejected errorMessage \<Rightarrow> pollFailed errorMessage s
      | PollResponse ok statusText logs \<Rightarrow>
          if \<not> ok then pollFailed (''Server error: '' @ statusText) s
          else
            (case logs of
               None \<Rightarrow> s
             | Some newLogs \<Rightarrow>
                 if length newLogs > 0
                 then
                   (let s1 = s\<lparr>logMessages := addLogs newLogs (logMessages s)\<rparr>;
                        lastLog = last newLogs
                    in if (type lastLog = success \<or> type lastLog = error)
                            \<and> includes (text lastLog) ''Job''
                       then (stopPolling s1)
                              \<lparr>isProcessing := False, bankFile := None, internalFile := None\<rparr>
                       else s1)
                 else s))"

section \<open>Events\<close>

text \<open>
  What can happen to the mounted component. A file button and an upload button deliver
  nothing while they are disabled (\<^verbatim>\<open>disabled={isProcessing}\<close> and
  \<^verbatim>\<open>disabled={!bankFile || isProcessing}\<close>). A tick of a live interval issues the
  log request for the job id its callback captured. A request in flight settles at any
  later moment, in any order.
\<close>

datatype event =
    BankFileChange "string option"
  | InternalFileChange "string option"
  | ClickUploadBank
  | ClickUploadInternal
  | UploadSettles nat upload_outcome
  | Tick nat
  | PollSettles nat poll_outcome

definition removeAt :: "nat \<Rightarrow> 'a list \<Rightarrow> 'a list" where
  "removeAt i xs = take i xs @ drop (Suc i) xs"

fun step :: "Dashboard \<Rightarrow> event \<Rightarrow> Dashboard" where
  "step s (BankFileChange f) =
     (if isProcessing s then s else rerender s (onBankFileChange f s))"
| "step s (InternalFileChange f) =
     (if isProcessing s then s else rerender s (onInternalFileChange f s))"
| "step s ClickUploadBank =
     (if bankFile s = None \<or> isProcessing s then s
      else rerender s (handleUpload (bankFile s) ''/api/ingest'' s))"
| "step s ClickUploadInternal =
     (if internalFile s = None \<or> isProcessing s then s
      else rerender s (handleUpload (internalFile s) ''/api/ingest_internal'' s))"
| "step s (UploadSettles i outcome) =
     (if i < length (uploads s)
      then rerender s (uploadSettled outcome (s\<lparr>uploads := removeAt i (uploads s)\<rparr>))
      else s)"
| "step s (Tick h) =
     (case map_of (intervals s) h of
        None \<Rightarrow> s
      | Some j \<Rightarrow> s\<lparr>polls := polls s @ [j]\<rparr>)"
| "step s (PollSettles i outcome) =
     (if i < length (polls s)
      then rerender s (pollSettled outcome (s\<lparr>polls := removeAt i (polls s)\<rparr>))
      else s)"

definition run :: "event list \<Rightarrow> Dashboard" where
  "run es = foldl step initial es"

section \<open>The DRE report panel\<close>


















section \<open>The wiring of the interval timer\<close>

text \<open>
  The property of a state that the proofs carry along every run: the ref and the
  browser's timers agree, and a timer is live exactly when a job id is set and the
  component is processing; that timer polls the current job id.
\<close>

definition pollerInv :: "Dashboard \<Rightarrow> bool" where
  "pollerInv s =
     (case pollingIntervalRef s of
        None \<Rightarrow> intervals s = [] \<and> \<not> (truthy (currentJobId s) \<and> isProcessing s)
      | Some h \<Rightarrow>
          (case currentJobId s of
             None \<Rightarrow> False
           | Some j \<Rightarrow> intervals s = [(h, j)] \<and> j \<noteq> [] \<and> isProcessing s))"


section \<open>Basic facts\<close>

lemma includes_iff: "includes s t \<longleftrightarrow> (\<exists>p q. s = p @ t @ q)"
proof (induction s)
  case Nil
  then show ?case by auto
next
  case (Cons c cs)
  show ?case
  proof
    assume "includes (c # cs) t"
    then consider "take (length t) (c # cs) = t" | "includes cs t" by auto
    then show "\<exists>p q. c # cs = p @ t @ q"
    proof cases
      case 1
      then have "c # cs = [] @ t @ drop (length t) (c # cs)"
        by (metis append_Nil append_take_drop_id)
      then show ?thesis by blast
    next
      case 2
      with Cons obtain p q where "cs = p @ t @ q" by blast
      then have "c # cs = (c # p) @ t @ q" by simp
      then show ?thesis by blast
    qed
  next
    assume "\<exists>p q. c # cs = p @ t @ q"
    then obtain p q where pq: "c # cs = p @ t @ q" by blast
    show "includes (c # cs) t"
    proof (cases p)
      case Nil
      with pq have "take (length t) (c # cs) = t" by simp
      then show ?thesis by simp
    next
      case (Cons a p')
      with pq have "cs = p' @ t @ q" by simp
      with Cons.IH have "includes cs t" by blast
      then show ?thesis by simp
    qed
  qed
qed

lemma pollerInv_initial: "pollerInv initial"
  by (simp add: pollerInv_def initial_def truthy_def)

lemma pollerInv_stop_effect:
  "pollerInv s \<Longrightarrow> intervals s' = intervals s \<Longrightarrow> pollingIntervalRef s' = pollingIntervalRef s
   \<Longrightarrow> pollerInv (pollingEffect (stopPolling s'))"
  by (auto simp: pollerInv_def pollingEffect_def stopPolling_def truthy_def split: option.splits)

lemma pollerInv_rerender:
  assumes "pollerInv s" "intervals s' = intervals s" "pollingIntervalRef s' = pollingIntervalRef s"
  shows "pollerInv (rerender s s')"
proof (cases "currentJobId s' = currentJobId s \<and> isProcessing s' = isProcessing s")
  case True
  then have "rerender s s' = s'" by (simp add: rerender_def)
  moreover have "pollerInv s'" using assms True by (auto simp: pollerInv_def split: option.splits)
  ultimately show ?thesis by simp
next
  case False
  then have "rerender s s' = pollingEffect (stopPolling s')" by (auto simp add: rerender_def)
  then show ?thesis using pollerInv_stop_effect[OF assms] by simp
qed

lemma pollerInv_stopped:
  "pollerInv s \<Longrightarrow> intervals s' = intervals s \<Longrightarrow> pollingIntervalRef s' = pollingIntervalRef s
   \<Longrightarrow> pollerInv ((stopPolling s')\<lparr>isProcessing := False\<rparr>)"
  by (auto simp: pollerInv_def stopPolling_def truthy_def split: option.splits)

lemma pollerInv_cong:
  "pollerInv s \<Longrightarrow> intervals s' = intervals s \<Longrightarrow> pollingIntervalRef s' = pollingIntervalRef s
   \<Longrightarrow> currentJobId s' = currentJobId s \<Longrightarrow> isProcessing s' = isProcessing s \<Longrightarrow> pollerInv s'"
  by (auto simp: pollerInv_def split: option.splits)

lemma pollerInv_rerender_of_inv:
  assumes "pollerInv s'"
  shows "pollerInv (rerender s s')"
proof (cases "currentJobId s' = currentJobId s \<and> isProcessing s' = isProcessing s")
  case True
  then show ?thesis using assms by (simp add: rerender_def)
next
  case False
  then have "rerender s s' = pollingEffect (stopPolling s')" by (auto simp add: rerender_def)
  then show ?thesis using pollerInv_stop_effect[OF assms, of s'] by simp
qed

lemma pollerInv_pollFailed: "pollerInv s \<Longrightarrow> pollerInv (pollFailed m s)"
  unfolding pollFailed_def by (rule pollerInv_stopped) simp_all

lemma pollerInv_pollSettled: "pollerInv s \<Longrightarrow> pollerInv (pollSettled outcome s)"
proof (cases outcome)
  case (PollRejected m)
  assume "pollerInv s"
  then show ?thesis using PollRejected by (simp add: pollSettled_def pollerInv_pollFailed)
next
  case (PollResponse ok st logs)
  assume a: "pollerInv s"
  have t: "pollerInv ((stopPolling (s\<lparr>logMessages := l\<rparr>))\<lparr>isProcessing := False, bankFile := None, internalFile := None\<rparr>)" for l
    by (rule pollerInv_cong[OF pollerInv_stopped[OF a, of "s\<lparr>logMessages := l\<rparr>"]]) simp_all
  have n: "pollerInv (s\<lparr>logMessages := l\<rparr>)" for l
    by (rule pollerInv_cong[OF a]) simp_all
  show ?thesis using PollResponse a t n
    by (simp add: pollSettled_def pollerInv_pollFailed Let_def split: option.splits)
qed

lemma pollerInv_step: "pollerInv s \<Longrightarrow> pollerInv (step s e)"
proof (cases e)
  case (BankFileChange f)
  assume a: "pollerInv s"
  have "pollerInv (rerender s (onBankFileChange f s))"
    by (rule pollerInv_rerender[OF a]) (simp_all add: onBankFileChange_def split: option.splits)
  then show ?thesis using a BankFileChange by simp
next
  case (InternalFileChange f)
  assume a: "pollerInv s"
  have "pollerInv (rerender s (onInternalFileChange f s))"
    by (rule pollerInv_rerender[OF a]) (simp_all add: onInternalFileChange_def split: option.splits)
  then show ?thesis using a InternalFileChange by simp
next
  case ClickUploadBank
  assume a: "pollerInv s"
  have "pollerInv (rerender s (handleUpload f ep s))" for f ep
    by (rule pollerInv_rerender[OF a]) (simp_all add: handleUpload_def split: option.splits)
  then show ?thesis using a ClickUploadBank by simp
next
  case ClickUploadInternal
  assume a: "pollerInv s"
  have "pollerInv (rerender s (handleUpload f ep s))" for f ep
    by (rule pollerInv_rerender[OF a]) (simp_all add: handleUpload_def split: option.splits)
  then show ?thesis using a ClickUploadInternal by simp
next
  case (UploadSettles i outcome)
  assume a: "pollerInv s"
  have "pollerInv (rerender s (uploadSettled outcome (s\<lparr>uploads := u\<rparr>)))" for u
    by (rule pollerInv_rerender[OF a])
       (simp_all add: uploadSettled_def uploadFailed_def split: upload_outcome.splits)
  then show ?thesis using a UploadSettles by simp
next
  case (Tick h)
  assume a: "pollerInv s"
  have "pollerInv (s\<lparr>polls := p\<rparr>)" for p
    by (rule pollerInv_cong[OF a]) simp_all
  then show ?thesis using a Tick by (simp split: option.splits)
next
  case (PollSettles i outcome)
  assume a: "pollerInv s"
  have "pollerInv (s\<lparr>polls := p\<rparr>)" for p
    by (rule pollerInv_cong[OF a]) simp_all
  then have "pollerInv (rerender s (pollSettled outcome (s\<lparr>polls := p\<rparr>)))" for p
    by (intro pollerInv_rerender_of_inv pollerInv_pollSettled)
  then show ?thesis using a PollSettles by simp
qed

lemma pollerInv_foldl: "pollerInv s \<Longrightarrow> pollerInv (foldl step s es)"
  by (induction es arbitrary: s) (simp_all add: pollerInv_step)

lemma pollerInv_run: "pollerInv (run es)"
  unfolding run_def by (rule pollerInv_foldl[OF pollerInv_initial])

lemma rerender_idle:
  "\<not> isProcessing s' \<Longrightarrow> pollingIntervalRef s' = None \<Longrightarrow> rerender s s' = s'"
  by (simp add: rerender_def pollingEffect_def stopPolling_def split: option.splits)

lemma rerender_same:
  "currentJobId s' = currentJobId s \<Longrightarrow> isProcessing s' = isProcessing s \<Longrightarrow> rerender s s' = s'"
  by (simp add: rerender_def)

lemma stopPolling_fields [simp]:
  "pollingIntervalRef (stopPolling s) = None"
  "isProcessing (stopPolling s) = isProcessing s"
  "currentJobId (stopPolling s) = currentJobId s"
  "logMessages (stopPolling s) = logMessages s"
  "bankFile (stopPolling s) = bankFile s"
  "internalFile (stopPolling s) = internalFile s"
  "uploads (stopPolling s) = uploads s"
  "polls (stopPolling s) = polls s"
  "nextHandle (stopPolling s) = nextHandle s"
  by (simp_all add: stopPolling_def split: option.splits)

lemma pollerInv_idle: "pollerInv s \<Longrightarrow> \<not> isProcessing s \<Longrightarrow> intervals s = [] \<and> pollingIntervalRef s = None"
  by (auto simp: pollerInv_def split: option.splits)

lemma pollerInv_jobs:
  "pollerInv s \<Longrightarrow>
   map snd (intervals s) = (if truthy (currentJobId s) \<and> isProcessing s then [the (currentJobId s)] else [])"
  by (auto simp: pollerInv_def truthy_def split: option.splits)

lemma pollFailed_fields [simp]:
  "pollingIntervalRef (pollFailed m s) = None"
  "isProcessing (pollFailed m s) = False"
  "currentJobId (pollFailed m s) = currentJobId s"
  "logMessages (pollFailed m s) = addLogs [\<lparr>type = error, text = ''Failed to fetch logs: '' @ m\<rparr>] (logMessages s)"
  "bankFile (pollFailed m s) = bankFile s"
  "internalFile (pollFailed m s) = internalFile s"
  "uploads (pollFailed m s) = uploads s"
  "polls (pollFailed m s) = polls s"
  by (simp_all add: pollFailed_def)

lemma addLogs_prefix: "\<exists>ys. addLogs newLogs currentLogs = currentLogs @ ys \<and> set ys \<subseteq> set newLogs"
  by (auto simp: addLogs_def Let_def)

lemma addLogs_distinct:
  "distinct (map text currentLogs) \<Longrightarrow> distinct (map text newLogs)
   \<Longrightarrow> distinct (map text (addLogs newLogs currentLogs))"
  by (auto simp: addLogs_def Let_def distinct_map_filter) (metis imageI)

lemma addLogs_found:
  "set (map text (addLogs newLogs currentLogs)) = set (map text currentLogs) \<union> set (map text newLogs)"
  by (auto simp: addLogs_def Let_def filter_empty_conv)

lemma tick_live: "map_of (intervals s) h = Some j \<Longrightarrow> step s (Tick h) = s\<lparr>polls := polls s @ [j]\<rparr>"
  by simp

lemma uploadFailed_fields [simp]:
  "isProcessing (uploadFailed m s) = False"
  "bankFile (uploadFailed m s) = None"
  "internalFile (uploadFailed m s) = None"
  "currentJobId (uploadFailed m s) = currentJobId s"
  "pollingIntervalRef (uploadFailed m s) = pollingIntervalRef s"
  "intervals (uploadFailed m s) = intervals s"
  "uploads (uploadFailed m s) = uploads s"
  "polls (uploadFailed m s) = polls s"
  "logMessages (uploadFailed m s) =
     addLogs [\<lparr>type = error, text = ''Upload failed: '' @ m\<rparr>] (logMessages s)"
  by (simp_all add: uploadFailed_def)

lemma rerender_fields [simp]:
  "isProcessing (rerender s s') = isProcessing s'"
  "currentJobId (rerender s s') = currentJobId s'"
  "logMessages (rerender s s') = logMessages s'"
  "bankFile (rerender s s') = bankFile s'"
  "internalFile (rerender s s') = internalFile s'"
  "uploads (rerender s s') = uploads s'"
  "polls (rerender s s') = polls s'"
  by (simp_all add: rerender_def pollingEffect_def split: option.splits)

section \<open>Termination detection of the poller\<close>

text \<open>
  C1 (as amended). In every reachable state, when a log request in flight settles with
  an ok response carrying a non-empty batch, the transcript becomes
  \<open>addLogs newLogs\<close> of the old one, and only the last entry of the batch decides
  what happens next. If its type is success or error and its text contains the
  substring \<open>Job\<close>, polling stops: no interval timer remains, the ref is cleared,
  \<open>isProcessing\<close> is false and both file selections are cleared, in the same way for
  both types. Otherwise the timer, the ref, \<open>isProcessing\<close> and the file selections
  are as before, so polling continues.
\<close>

theorem poll_batch_terminal_on_last_entry:
  assumes "i < length (polls (run es))" and "newLogs \<noteq> []"
  shows "let s = run es;
             s' = step s (PollSettles i (PollResponse True statusText (Some newLogs)));
             lastLog = last newLogs
         in logMessages s' = addLogs newLogs (logMessages s) \<and>
            (if (type lastLog = success \<or> type lastLog = error)
                  \<and> (\<exists>p q. text lastLog = p @ ''Job'' @ q)
             then intervals s' = [] \<and> pollingIntervalRef s' = None \<and> \<not> isProcessing s'
                  \<and> bankFile s' = None \<and> internalFile s' = None
             else intervals s' = intervals s \<and> pollingIntervalRef s' = pollingIntervalRef s
                  \<and> isProcessing s' = isProcessing s
                  \<and> bankFile s' = bankFile s \<and> internalFile s' = internalFile s)"
proof -
  define s where "s = run es"
  define s0 where "s0 = s\<lparr>polls := removeAt i (polls s)\<rparr>"
  define s1 where "s1 = s0\<lparr>logMessages := addLogs newLogs (logMessages s)\<rparr>"
  define t where "t = pollSettled (PollResponse True statusText (Some newLogs)) s0"
  have inv0: "pollerInv s0"
    unfolding s0_def s_def by (rule pollerInv_cong[OF pollerInv_run]) simp_all
  have st: "step s (PollSettles i (PollResponse True statusText (Some newLogs))) = rerender s t"
    using assms(1) by (simp add: s_def t_def s0_def)
  have inv_t: "pollerInv t" unfolding t_def by (rule pollerInv_pollSettled[OF inv0])
  show ?thesis
  proof (cases "(type (last newLogs) = success \<or> type (last newLogs) = error)
                  \<and> includes (text (last newLogs)) ''Job''")
    case True
    then have t_eq: "t = (stopPolling s1)\<lparr>isProcessing := False, bankFile := None, internalFile := None\<rparr>"
      using assms(2) by (simp add: t_def pollSettled_def Let_def s1_def s0_def)
    then have idle: "\<not> isProcessing t" "pollingIntervalRef t = None" by simp_all
    then have "rerender s t = t" by (rule rerender_idle)
    with st have s': "step s (PollSettles i (PollResponse True statusText (Some newLogs))) = t"
      by (simp only:)
    have "intervals t = []" using pollerInv_idle[OF inv_t idle(1)] by simp
    moreover have "logMessages t = addLogs newLogs (logMessages s)" by (simp add: t_eq s1_def)
    moreover have "bankFile t = None" "internalFile t = None" by (simp_all add: t_eq)
    ultimately show ?thesis using True idle
      unfolding Let_def s_def[symmetric] includes_iff[symmetric] s' by simp
  next
    case False
    then have t_eq: "t = s1"
      using assms(2) by (auto simp add: t_def pollSettled_def Let_def s1_def s0_def)
    have "rerender s t = t" by (rule rerender_same) (simp_all add: t_eq s1_def s0_def)
    with st have s': "step s (PollSettles i (PollResponse True statusText (Some newLogs))) = t"
      by (simp only:)
    have "logMessages t = addLogs newLogs (logMessages s)" "intervals t = intervals s"
      "pollingIntervalRef t = pollingIntervalRef s" "isProcessing t = isProcessing s"
      "bankFile t = bankFile s" "internalFile t = internalFile s"
      by (simp_all add: t_eq s1_def s0_def)
    then show ?thesis using False
      unfolding Let_def s_def[symmetric] includes_iff[symmetric] s' by auto
  qed
qed

theorem poll_batch_terminal_on_last_entry_witness:
  "0 < length (polls (run [BankFileChange (Some ''a.pdf''), ClickUploadBank,
       UploadSettles 0 (UploadResponse True \<lparr>detail = None, job_id = Some ''42''\<rparr>), Tick 1]))
   \<and> [\<lparr>type = success, text = ''Job 42 complete''\<rparr>] \<noteq> []
   \<and> intervals (step (run [BankFileChange (Some ''a.pdf''), ClickUploadBank,
       UploadSettles 0 (UploadResponse True \<lparr>detail = None, job_id = Some ''42''\<rparr>), Tick 1])
         (PollSettles 0 (PollResponse True ''OK''
            (Some [\<lparr>type = success, text = ''Job 42 complete''\<rparr>])))) = []
   \<and> \<not> isProcessing (step (run [BankFileChange (Some ''a.pdf''), ClickUploadBank,
       UploadSettles 0 (UploadResponse True \<lparr>detail = None, job_id = Some ''42''\<rparr>), Tick 1])
         (PollSettles 0 (PollResponse True ''OK''
            (Some [\<lparr>type = success, text = ''Job 42 complete''\<rparr>]))))"
proof -
  let ?es = "[BankFileChange (Some ''a.pdf''), ClickUploadBank,
       UploadSettles 0 (UploadResponse True \<lparr>detail = None, job_id = Some ''42''\<rparr>), Tick 1]"
  let ?b = "[\<lparr>type = success, text = ''Job 42 complete''\<rparr>]"
  have h1: "0 < length (polls (run ?es))" by code_simp
  have h2: "?b \<noteq> []" by simp
  have h3: "\<exists>p q. text (last ?b) = p @ ''Job'' @ q"
    unfolding includes_iff[symmetric] by simp
  show ?thesis
    using h1 h2 h3 poll_batch_terminal_on_last_entry[OF h1 h2, of "''OK''"]
    by (simp add: Let_def)
qed

text \<open>
  C1, as stated, also has the poller report \<open>Completed\<close> for a success entry and
  \<open>Failed\<close> for an error entry. The component has no such value: in a session
  whose transcript already holds the text (first seen with kind \<open>server\<close>), a final
  batch ending in the success entry and one ending in the error entry leave the
  component in the same state.
\<close>

theorem terminal_kind_not_reported_counterexample:
  "step (run [BankFileChange (Some ''a.pdf''), ClickUploadBank,
         UploadSettles 0 (UploadResponse True \<lparr>detail = None, job_id = Some ''42''\<rparr>),
         Tick 1, Tick 1,
         PollSettles 0 (PollResponse True ''OK''
           (Some [\<lparr>type = server, text = ''Job 42 complete''\<rparr>]))])
      (PollSettles 0 (PollResponse True ''OK''
           (Some [\<lparr>type = success, text = ''Job 42 complete''\<rparr>])))
   = step (run [BankFileChange (Some ''a.pdf''), ClickUploadBank,
         UploadSettles 0 (UploadResponse True \<lparr>detail = None, job_id = Some ''42''\<rparr>),
         Tick 1, Tick 1,
         PollSettles 0 (PollResponse True ''OK''
           (Some [\<lparr>type = server, text = ''Job 42 complete''\<rparr>]))])
      (PollSettles 0 (PollResponse True ''OK''
           (Some [\<lparr>type = error, text = ''Job 42 complete''\<rparr>])))"
  by code_simp

section \<open>The transcript\<close>

text \<open>
  C2. The set of existing texts is taken from the transcript before the batch; entries of
  one batch are not compared with each other. A batch that repeats a text, appended to
  the empty transcript, leaves two entries with the same text.
\<close>

theorem addLogs_duplicate_within_batch:
  "addLogs [\<lparr>type = info, text = ''Parsing page''\<rparr>, \<lparr>type = info, text = ''Parsing page''\<rparr>] []
     = [\<lparr>type = info, text = ''Parsing page''\<rparr>, \<lparr>type = info, text = ''Parsing page''\<rparr>]
   \<and> \<not> distinct (map text
         (addLogs [\<lparr>type = info, text = ''Parsing page''\<rparr>, \<lparr>type = info, text = ''Parsing page''\<rparr>] []))"
  by (simp add: addLogs_def)

text \<open>
  C10. When every text of the batch is already in the transcript, \<open>addLogs\<close> returns
  the transcript it was given: nothing is added, removed or reordered, and the set of
  seen texts, which is computed from the transcript, is the same.
\<close>

theorem addLogs_all_present_unchanged:
  "set (map text newLogs) \<subseteq> set (map text currentLogs) \<Longrightarrow> addLogs newLogs currentLogs = currentLogs"
proof -
  assume a: "set (map text newLogs) \<subseteq> set (map text currentLogs)"
  have "filter (\<lambda>log. text log \<notin> set (map text currentLogs)) newLogs = []"
    using a by (auto simp: filter_empty_conv)
  then show ?thesis by (simp add: addLogs_def)
qed

theorem addLogs_all_present_unchanged_witness:
  "set (map text [\<lparr>type = error, text = ''b''\<rparr>, \<lparr>type = info, text = ''a''\<rparr>])
     \<subseteq> set (map text [\<lparr>type = info, text = ''a''\<rparr>, \<lparr>type = success, text = ''b''\<rparr>])
   \<and> addLogs [\<lparr>type = error, text = ''b''\<rparr>, \<lparr>type = info, text = ''a''\<rparr>]
        [\<lparr>type = info, text = ''a''\<rparr>, \<lparr>type = success, text = ''b''\<rparr>]
      = [\<lparr>type = info, text = ''a''\<rparr>, \<lparr>type = success, text = ''b''\<rparr>]"
proof -
  have h: "set (map text [\<lparr>type = error, text = ''b''\<rparr>, \<lparr>type = info, text = ''a''\<rparr>])
     \<subseteq> set (map text [\<lparr>type = info, text = ''a''\<rparr>, \<lparr>type = success, text = ''b''\<rparr>])"
    by simp
  show ?thesis using h addLogs_all_present_unchanged[OF h] by simp
qed

section \<open>One job at a time\<close>

text \<open>
  C3. The upload buttons are disabled while \<open>isProcessing\<close> holds, but the flag is
  also written by the callbacks of log requests issued earlier. Below, two log requests
  of job \<open>j1\<close> overlap and both fail. The first failure ends the session and keeps
  the file, so a click starts a second upload; the second failure then clears the flag
  while that upload is in flight, and the next click is accepted as well: two uploads
  are in flight at once.
\<close>

theorem second_upload_accepted_while_uploading:
  "uploads (run [BankFileChange (Some ''a.pdf''), ClickUploadBank,
       UploadSettles 0 (UploadResponse True \<lparr>detail = None, job_id = Some ''j1''\<rparr>),
       Tick 1, Tick 1,
       PollSettles 0 (PollRejected ''Failed to fetch''),
       ClickUploadBank,
       PollSettles 0 (PollRejected ''Failed to fetch'')])
     = [(''a.pdf'', ''/api/ingest'')]
   \<and> \<not> isProcessing (run [BankFileChange (Some ''a.pdf''), ClickUploadBank,
       UploadSettles 0 (UploadResponse True \<lparr>detail = None, job_id = Some ''j1''\<rparr>),
       Tick 1, Tick 1,
       PollSettles 0 (PollRejected ''Failed to fetch''),
       ClickUploadBank,
       PollSettles 0 (PollRejected ''Failed to fetch'')])
   \<and> uploads (run [BankFileChange (Some ''a.pdf''), ClickUploadBank,
       UploadSettles 0 (UploadResponse True \<lparr>detail = None, job_id = Some ''j1''\<rparr>),
       Tick 1, Tick 1,
       PollSettles 0 (PollRejected ''Failed to fetch''),
       ClickUploadBank,
       PollSettles 0 (PollRejected ''Failed to fetch''),
       ClickUploadBank])
     = [(''a.pdf'', ''/api/ingest''), (''a.pdf'', ''/api/ingest'')]"
  by code_simp

text \<open>
  What holds in every reachable state is the bound on the pollers: at most one interval
  timer is live.
\<close>

lemma at_most_one_interval: "length (intervals (run es)) \<le> 1"
proof -
  have "length (map snd (intervals (run es))) \<le> 1"
    unfolding pollerInv_jobs[OF pollerInv_run] by simp
  then show ?thesis by simp
qed

section \<open>Ticks and requests in flight\<close>

text \<open>
  C4 (as amended). Every tick of a live interval issues one more log request for the job
  of that interval, whatever is still in flight: \<open>n\<close> ticks with no response in between
  add \<open>n\<close> requests, and the timer stays as it is. No tick is skipped and nothing is
  queued.
\<close>

theorem ticks_issue_overlapping_requests:
  assumes "map_of (intervals s) h = Some j"
  shows "polls (foldl step s (replicate n (Tick h))) = polls s @ replicate n j
         \<and> intervals (foldl step s (replicate n (Tick h))) = intervals s"
  using assms
proof (induction n arbitrary: s)
  case 0
  then show ?case by simp
next
  case (Suc n)
  let ?s1 = "s\<lparr>polls := polls s @ [j]\<rparr>"
  have live: "map_of (intervals ?s1) h = Some j" using Suc.prems by simp
  have "foldl step s (replicate (Suc n) (Tick h)) = foldl step ?s1 (replicate n (Tick h))"
    using Suc.prems by simp
  then show ?case using Suc.IH[OF live] by (simp add: replicate_app_Cons_same)
qed

theorem ticks_issue_overlapping_requests_witness:
  "map_of (intervals (run [BankFileChange (Some ''a.pdf''), ClickUploadBank,
       UploadSettles 0 (UploadResponse True \<lparr>detail = None, job_id = Some ''abc''\<rparr>)])) 1 = Some ''abc''
   \<and> polls (foldl step (run [BankFileChange (Some ''a.pdf''), ClickUploadBank,
       UploadSettles 0 (UploadResponse True \<lparr>detail = None, job_id = Some ''abc''\<rparr>)])
         (replicate 3 (Tick 1))) = [''abc'', ''abc'', ''abc'']"
proof -
  let ?es = "[BankFileChange (Some ''a.pdf''), ClickUploadBank,
       UploadSettles 0 (UploadResponse True \<lparr>detail = None, job_id = Some ''abc''\<rparr>)]"
  have h: "map_of (intervals (run ?es)) 1 = Some ''abc''" by code_simp
  have p: "polls (run ?es) = []" by code_simp
  have r: "replicate 3 ''abc'' = [''abc'', ''abc'', ''abc'']" by code_simp
  show ?thesis using h ticks_issue_overlapping_requests[OF h, of 3] unfolding p r by simp
qed

text \<open>
  C4, as stated, fails: after an upload that returned job \<open>abc\<close>, two ticks with no
  response in between leave two log requests for \<open>abc\<close> in flight.
\<close>

theorem concurrent_polls_counterexample:
  "polls (run [BankFileChange (Some ''a.pdf''), ClickUploadBank,
       UploadSettles 0 (UploadResponse True \<lparr>detail = None, job_id = Some ''abc''\<rparr>),
       Tick 1, Tick 1]) = [''abc'', ''abc'']"
  by code_simp

section \<open>A failed log request\<close>

text \<open>
  C5 (as amended). In every reachable state, when a log request in flight fails (the
  request rejects, or the response is not ok), the callback hands the one entry
  \<open>Failed to fetch logs: msg\<close> of type error to \<open>addLogs\<close>, so it is appended unless
  an entry with that text is already in the transcript; no interval timer remains, the
  ref is cleared and \<open>isProcessing\<close> is false; the failed request leaves the requests
  in flight and no new request is issued.
\<close>

theorem poll_failure_stops_session:
  assumes "i < length (polls (run es))"
    and "outcome = PollRejected msg
         \<or> (\<exists>statusText logs. outcome = PollResponse False statusText logs
                \<and> msg = ''Server error: '' @ statusText)"
  shows "let s = run es;
             s' = step s (PollSettles i outcome);
             entry = \<lparr>type = error, text = ''Failed to fetch logs: '' @ msg\<rparr>
         in logMessages s' =
              (if text entry \<in> set (map text (logMessages s)) then logMessages s
               else logMessages s @ [entry])
            \<and> intervals s' = [] \<and> pollingIntervalRef s' = None \<and> \<not> isProcessing s'
            \<and> polls s' = removeAt i (polls s) \<and> uploads s' = uploads s"
proof -
  define s where "s = run es"
  define s0 where "s0 = s\<lparr>polls := removeAt i (polls s)\<rparr>"
  define t where "t = pollFailed msg s0"
  have inv0: "pollerInv s0"
    unfolding s0_def s_def by (rule pollerInv_cong[OF pollerInv_run]) simp_all
  have "pollSettled outcome s0 = t"
    using assms(2) by (auto simp: t_def pollSettled_def)
  then have st: "step s (PollSettles i outcome) = rerender s t"
    using assms(1) by (simp add: s_def s0_def)
  have inv_t: "pollerInv t" unfolding t_def by (rule pollerInv_pollFailed[OF inv0])
  have idle: "\<not> isProcessing t" "pollingIntervalRef t = None" by (simp_all add: t_def)
  then have "rerender s t = t" by (rule rerender_idle)
  with st have s': "step s (PollSettles i outcome) = t" by (simp only:)
  have "intervals t = []" using pollerInv_idle[OF inv_t idle(1)] by simp
  moreover have "logMessages t =
      (if ''Failed to fetch logs: '' @ msg \<in> set (map text (logMessages s)) then logMessages s
       else logMessages s @ [\<lparr>type = error, text = ''Failed to fetch logs: '' @ msg\<rparr>])"
    by (simp add: t_def s0_def addLogs_def)
  moreover have "polls t = removeAt i (polls s)" "uploads t = uploads s"
    by (simp_all add: t_def s0_def)
  ultimately show ?thesis using idle
    unfolding Let_def s_def[symmetric] s' by simp
qed

theorem poll_failure_stops_session_witness:
  "0 < length (polls (run [BankFileChange (Some ''a.pdf''), ClickUploadBank,
       UploadSettles 0 (UploadResponse True \<lparr>detail = None, job_id = Some ''abc''\<rparr>), Tick 1]))
   \<and> intervals (step (run [BankFileChange (Some ''a.pdf''), ClickUploadBank,
       UploadSettles 0 (UploadResponse True \<lparr>detail = None, job_id = Some ''abc''\<rparr>), Tick 1])
         (PollSettles 0 (PollResponse False ''Bad Gateway'' None))) = []
   \<and> logMessages (step (run [BankFileChange (Some ''a.pdf''), ClickUploadBank,
       UploadSettles 0 (UploadResponse True \<lparr>detail = None, job_id = Some ''abc''\<rparr>), Tick 1])
         (PollSettles 0 (PollResponse False ''Bad Gateway'' None)))
      = [\<lparr>type = info, text = ''Uploading a.pdf to /api/ingest...''\<rparr>,
         \<lparr>type = success, text = ''Upload complete. Processing...''\<rparr>,
         \<lparr>type = error, text = ''Failed to fetch logs: Server error: Bad Gateway''\<rparr>]"
proof -
  let ?es = "[BankFileChange (Some ''a.pdf''), ClickUploadBank,
       UploadSettles 0 (UploadResponse True \<lparr>detail = None, job_id = Some ''abc''\<rparr>), Tick 1]"
  have h1: "0 < length (polls (run ?es))" by code_simp
  have h2: "PollResponse False ''Bad Gateway'' None = PollRejected (''Server error: '' @ ''Bad Gateway'')
         \<or> (\<exists>statusText logs. PollResponse False ''Bad Gateway'' None = PollResponse False statusText logs
                \<and> ''Server error: '' @ ''Bad Gateway'' = ''Server error: '' @ statusText)"
    by simp
  have l: "logMessages (run ?es) = [\<lparr>type = info, text = ''Uploading a.pdf to /api/ingest...''\<rparr>,
         \<lparr>type = success, text = ''Upload complete. Processing...''\<rparr>]" by code_simp
  show ?thesis
    using h1 poll_failure_stops_session[OF h1 h2]
    unfolding Let_def l by simp
qed

text \<open>
  C5, as stated, fails: when two log requests are in flight and both fail with the same
  message, the second failure appends no entry.
\<close>

theorem second_poll_failure_appends_nothing_counterexample:
  "logMessages (run [BankFileChange (Some ''a.pdf''), ClickUploadBank,
       UploadSettles 0 (UploadResponse True \<lparr>detail = None, job_id = Some ''abc''\<rparr>),
       Tick 1, Tick 1,
       PollSettles 0 (PollRejected ''Failed to fetch''),
       PollSettles 0 (PollRejected ''Failed to fetch'')])
   = logMessages (run [BankFileChange (Some ''a.pdf''), ClickUploadBank,
       UploadSettles 0 (UploadResponse True \<lparr>detail = None, job_id = Some ''abc''\<rparr>),
       Tick 1, Tick 1,
       PollSettles 0 (PollRejected ''Failed to fetch'')])
   \<and> polls (run [BankFileChange (Some ''a.pdf''), ClickUploadBank,
       UploadSettles 0 (UploadResponse True \<lparr>detail = None, job_id = Some ''abc''\<rparr>),
       Tick 1, Tick 1,
       PollSettles 0 (PollRejected ''Failed to fetch'')]) = [''abc'']"
  by code_simp

section \<open>The outcome of an upload\<close>

text \<open>
  C6. For a response that is not ok whose \<^verbatim>\<open>detail\<close> is an object without a usable
  \<^verbatim>\<open>message\<close>, the fallback chain hands the object itself to the \<^verbatim>\<open>Error\<close>
  constructor: the error line carries \<open>[object Object]\<close>, which is neither a message
  of the server nor the generic \<open>Upload failed\<close>. The flag and the file selections
  are reset as on every failure.
\<close>

theorem upload_error_object_detail:
  "logMessages (run [BankFileChange (Some ''a.pdf''), ClickUploadBank,
       UploadSettles 0 (UploadResponse False
          \<lparr>detail = Some (DetailObject None), job_id = None\<rparr>)])
     = [\<lparr>type = info, text = ''Uploading a.pdf to /api/ingest...''\<rparr>,
        \<lparr>type = error, text = ''Upload failed: [object Object]''\<rparr>]
   \<and> \<not> isProcessing (run [BankFileChange (Some ''a.pdf''), ClickUploadBank,
       UploadSettles 0 (UploadResponse False
          \<lparr>detail = Some (DetailObject None), job_id = None\<rparr>)])
   \<and> bankFile (run [BankFileChange (Some ''a.pdf''), ClickUploadBank,
       UploadSettles 0 (UploadResponse False
          \<lparr>detail = Some (DetailObject None), job_id = None\<rparr>)]) = None"
  by code_simp

text \<open>
  The message of a response that is not ok, case by case, and what every failed upload
  does to a reachable state, whatever the message: the entry \<open>Upload failed: msg\<close> of
  type error is handed to \<open>addLogs\<close>, \<open>isProcessing\<close> is false, both file
  selections are cleared and no interval timer is live.
\<close>

lemma uploadErrorMessage_cases:
  "uploadErrorMessage \<lparr>detail = None, job_id = jid\<rparr> = ''Upload failed''"
  "uploadErrorMessage \<lparr>detail = Some (DetailString []), job_id = jid\<rparr> = ''Upload failed''"
  "uploadErrorMessage \<lparr>detail = Some (DetailString (c # cs)), job_id = jid\<rparr> = c # cs"
  "uploadErrorMessage \<lparr>detail = Some (DetailObject (Some (c # cs))), job_id = jid\<rparr> = c # cs"
  "uploadErrorMessage \<lparr>detail = Some (DetailObject (Some [])), job_id = jid\<rparr> = ''[object Object]''"
  "uploadErrorMessage \<lparr>detail = Some (DetailObject None), job_id = jid\<rparr> = ''[object Object]''"
  by (simp_all add: uploadErrorMessage_def)

lemma upload_failure_returns_to_idle:
  assumes "i < length (uploads (run es))"
    and "outcome = UploadRejected msg
         \<or> (\<exists>data. outcome = UploadResponse False data \<and> msg = uploadErrorMessage data)
         \<or> outcome = UploadResponseNull False msg"
  shows "let s = run es; s' = step s (UploadSettles i outcome)
         in logMessages s' =
              addLogs [\<lparr>type = error, text = ''Upload failed: '' @ msg\<rparr>] (logMessages s)
            \<and> \<not> isProcessing s' \<and> bankFile s' = None \<and> internalFile s' = None
            \<and> intervals s' = [] \<and> pollingIntervalRef s' = None
            \<and> uploads s' = removeAt i (uploads s) \<and> polls s' = polls s"
proof -
  define s where "s = run es"
  define s0 where "s0 = s\<lparr>uploads := removeAt i (uploads s)\<rparr>"
  define t where "t = uploadFailed msg s0"
  have "uploadSettled outcome s0 = t"
    using assms(2) by (auto simp: t_def uploadSettled_def)
  then have st: "step s (UploadSettles i outcome) = rerender s t"
    using assms(1) by (simp add: s_def s0_def)
  have "pollerInv (step s (UploadSettles i outcome))"
    unfolding s_def by (rule pollerInv_step[OF pollerInv_run])
  then have inv': "pollerInv (rerender s t)" by (simp only: st)
  have idle: "\<not> isProcessing (rerender s t)" by (simp add: t_def)
  have "intervals (rerender s t) = []" "pollingIntervalRef (rerender s t) = None"
    using pollerInv_idle[OF inv' idle] by simp_all
  moreover have "logMessages (rerender s t) =
      addLogs [\<lparr>type = error, text = ''Upload failed: '' @ msg\<rparr>] (logMessages s)"
    "bankFile (rerender s t) = None" "internalFile (rerender s t) = None"
    "uploads (rerender s t) = removeAt i (uploads s)" "polls (rerender s t) = polls s"
    by (simp_all add: t_def s0_def)
  ultimately show ?thesis using idle
    unfolding Let_def s_def[symmetric] st by simp
qed




text \<open>
  C8. \<^verbatim>\<open>handleUpload\<close> with no file hands the entry
  \<open>No file selected to upload.\<close> of type error to \<open>addLogs\<close> and returns: no
  request is issued, and \<open>isProcessing\<close>, the job id and the timers are as before, so
  the effect does not run again.
\<close>

theorem handleUpload_without_file:
  "handleUpload None endpoint s =
     s\<lparr>logMessages :=
         addLogs [\<lparr>type = error, text = ''No file selected to upload.''\<rparr>] (logMessages s)\<rparr>
   \<and> uploads (handleUpload None endpoint s) = uploads s
   \<and> polls (handleUpload None endpoint s) = polls s
   \<and> isProcessing (handleUpload None endpoint s) = isProcessing s
   \<and> currentJobId (handleUpload None endpoint s) = currentJobId s
   \<and> intervals (handleUpload None endpoint s) = intervals s
   \<and> rerender s (handleUpload None endpoint s) = handleUpload None endpoint s"
  by (simp add: handleUpload_def rerender_def)

theorem handleUpload_without_file_witness:
  "logMessages (handleUpload None ''/api/ingest'' initial)
     = [\<lparr>type = info, text = ''Waiting for file...''\<rparr>,
        \<lparr>type = error, text = ''No file selected to upload.''\<rparr>]
   \<and> uploads (handleUpload None ''/api/ingest'' initial) = []
   \<and> \<not> isProcessing (handleUpload None ''/api/ingest'' initial)"
  using handleUpload_without_file[of "''/api/ingest''" initial]
  by (simp add: initial_def addLogs_def)

section \<open>The report query\<close>












end
